theory Spec2Isabelle
  imports Main "HOL-Library.Word" "HOL-Library.Sublist"
begin

unbundle bit_operations_syntax

section \<open>Go library primitives used by the two tools\<close>

text \<open>
  Go strings are byte sequences; they are modelled as \<open>string\<close> (a list of \<open>char\<close>,
  one per byte). The library functions below are the ones the tools call, restricted to
  the arguments the tools pass (a one-byte separator, an ASCII cutset).
\<close>

text \<open>\<open>strings.Split(s, sep)\<close> for a one-byte separator: \<open>n\<close> separators give \<open>n + 1\<close>
  tokens, and the empty string gives one empty token.\<close>

fun Split :: "string \<Rightarrow> char \<Rightarrow> string list" where
  "Split [] sep = [[]]"
| "Split (c # cs) sep =
     (if c = sep then [] # Split cs sep
      else (case Split cs sep of
              [] \<Rightarrow> [[c]]
            | t # ts \<Rightarrow> (c # t) # ts))"

text \<open>\<open>strings.Join(elems, sep)\<close>.\<close>

fun Join :: "string list \<Rightarrow> string \<Rightarrow> string" where
  "Join [] sep = []"
| "Join [x] sep = x"
| "Join (x # y # ys) sep = x @ sep @ Join (y # ys) sep"

text \<open>\<open>strings.Trim(s, cutset)\<close>: every leading and every trailing byte that is in the
  cutset is removed.\<close>

definition Trim :: "string \<Rightarrow> string \<Rightarrow> string" where
  "Trim s cutset =
     rev (dropWhile (\<lambda>c. c \<in> set cutset) (rev (dropWhile (\<lambda>c. c \<in> set cutset) s)))"

text \<open>
  \<open>strings.ToLower\<close>. On a string of ASCII bytes the library maps the bytes \<open>A\<close>..\<open>Z\<close>
  to \<open>a\<close>..\<open>z\<close> and keeps the others. On a string that holds a byte from 128 on it
  returns \<open>Map(unicode.ToLower, s)\<close>, which rests on the Unicode case tables of the
  library; that function is the parameter \<open>unicodeLower\<close> of the model, and of every
  function that lower-cases a path.
\<close>

definition lowerByte :: "char \<Rightarrow> char" where
  "lowerByte c =
     (case map_of (zip ''ABCDEFGHIJKLMNOPQRSTUVWXYZ'' ''abcdefghijklmnopqrstuvwxyz'') c of
        Some d \<Rightarrow> d
      | None \<Rightarrow> c)"

definition isASCII :: "string \<Rightarrow> bool" where
  "isASCII s = list_all (\<lambda>c. (of_char c :: nat) < 128) s"

definition ToLower :: "(string \<Rightarrow> string) \<Rightarrow> string \<Rightarrow> string" where
  "ToLower unicodeLower s = (if isASCII s then map lowerByte s else unicodeLower s)"

text \<open>\<open>strings.ReplaceAll(s, old, new)\<close> for one-byte \<open>old\<close> and \<open>new\<close>.\<close>

definition ReplaceAll :: "string \<Rightarrow> char \<Rightarrow> char \<Rightarrow> string" where
  "ReplaceAll s old new = map (\<lambda>c. if c = old then new else c) s"

text \<open>\<open>strings.Replace(s, old, "", 1)\<close>: the first occurrence of \<open>old\<close> is removed.\<close>

fun RemoveFirst :: "string \<Rightarrow> string \<Rightarrow> string" where
  "RemoveFirst [] old = []"
| "RemoveFirst (c # cs) old =
     (if prefix old (c # cs) then drop (length old) (c # cs)
      else c # RemoveFirst cs old)"

text \<open>
  A run-time panic of the Go program is a value: the slice expression \<open>xs[lo:hi]\<close>
  panics unless \<open>0 \<le> lo \<le> hi \<le> cap(xs)\<close>, the index expression \<open>xs[i]\<close> unless
  \<open>0 \<le> i < len(xs)\<close>. The slice that \<open>strings.Split\<close> returns has its capacity
  equal to its length, and a string has no capacity beyond its length.
\<close>

datatype fault =
    Skip                \<comment> \<open>\<open>continue\<close>: the line is passed over silently\<close>
  | Warn string         \<comment> \<open>\<open>glog.Warningf\<close> followed by \<open>continue\<close>\<close>
  | Panic               \<comment> \<open>run-time panic: the program aborts\<close>

definition slice :: "'a list \<Rightarrow> int \<Rightarrow> int \<Rightarrow> fault + 'a list" where
  "slice xs lo hi =
     (if 0 \<le> lo \<and> lo \<le> hi \<and> hi \<le> int (length xs)
      then Inr (take (nat (hi - lo)) (drop (nat lo) xs))
      else Inl Panic)"

definition index :: "'a list \<Rightarrow> int \<Rightarrow> fault + 'a" where
  "index xs i =
     (if 0 \<le> i \<and> i < int (length xs) then Inr (xs ! nat i) else Inl Panic)"

text \<open>Sequencing: a \<open>continue\<close> or a panic ends the iteration, and what follows it in
  the loop body is not run.\<close>

definition andThen :: "fault + 'a \<Rightarrow> ('a \<Rightarrow> fault + 'b) \<Rightarrow> fault + 'b" where
  "andThen r k = (case r of Inl f \<Rightarrow> Inl f | Inr v \<Rightarrow> k v)"

text \<open>A parser's error makes the loop log a warning with the token and \<open>continue\<close>.\<close>

definition orWarn :: "'a option \<Rightarrow> string \<Rightarrow> fault + 'a" where
  "orWarn r token = (case r of None \<Rightarrow> Inl (Warn token) | Some v \<Rightarrow> Inr v)"

text \<open>
  The \<open>strconv\<close> parsers in base 10. \<open>ParseUint(s, 10, 64)\<close> accepts a non-empty string
  of decimal digits whose value fits 64 bits. \<open>Atoi(s)\<close> and \<open>ParseInt(s, 10, 64)\<close>
  accept an optional sign followed by a non-empty string of decimal digits, with the
  value in the range of a 64-bit signed integer (\<open>int\<close> has 64 bits on the platforms
  modelled). Every other string gives an error, modelled as \<open>None\<close>.
\<close>

definition isDigit :: "char \<Rightarrow> bool" where
  "isDigit c = (c \<in> set ''0123456789'')"

definition digitsValue :: "string \<Rightarrow> int" where
  "digitsValue s = foldl (\<lambda>n c. n * 10 + (of_char c - 48)) 0 s"

definition ParseUint :: "string \<Rightarrow> 64 word option" where
  "ParseUint s =
     (if s = [] \<or> \<not> list_all isDigit s then None
      else if digitsValue s < 2 ^ 64 then Some (word_of_int (digitsValue s))
      else None)"

definition ParseInt :: "string \<Rightarrow> int option" where
  "ParseInt s =
     (if s = [] then None
      else let neg = (hd s = CHR ''-'');
               body = (if hd s = CHR ''+'' \<or> hd s = CHR ''-'' then tl s else s)
           in if body = [] \<or> \<not> list_all isDigit body then None
              else if \<not> neg \<and> digitsValue body \<ge> 2 ^ 63 then None
              else if neg \<and> digitsValue body > 2 ^ 63 then None
              else Some (if neg then - digitsValue body else digitsValue body))"

definition Atoi :: "string \<Rightarrow> int option" where
  "Atoi s = ParseInt s"

section \<open>p4_find_missing_files\<close>

subsection \<open>The index of versioned files\<close>

type_synonym filemap = "string \<rightharpoonup> int"

definition registerExistingPath :: "(string \<Rightarrow> string) \<Rightarrow> filemap \<Rightarrow> string \<Rightarrow> bool \<Rightarrow> filemap" where
  "registerExistingPath unicodeLower filemap value caseSensitive =
     (let valueToAdd = (if \<not> caseSensitive then ToLower unicodeLower value else value)
      in filemap(valueToAdd \<mapsto> 1))"

definition pathExistsOnDisk :: "(string \<Rightarrow> string) \<Rightarrow> filemap \<Rightarrow> string \<Rightarrow> bool \<Rightarrow> bool" where
  "pathExistsOnDisk unicodeLower filemap value caseSensitive =
     (if caseSensitive then filemap value \<noteq> None
      else filemap (ToLower unicodeLower value) \<noteq> None)"

subsection \<open>The revision scan of an RCS container\<close>

definition sentinelBuffer :: "string list" where
  "sentinelBuffer = [''text'', ''@@'', ''log'']"

text \<open>
  The inner loop of \<open>readVersionsFromRCS\<close>: it walks the ring backwards from
  \<open>testIndex\<close> while the lines agree with the sentinel, and returns the final
  \<open>scanIndex\<close> and \<open>testIndex\<close>. The ring has four slots and \<open>testIndex\<close> stays
  within \<open>0..3\<close>, so every read of the ring is in range.
\<close>

function matchSentinel :: "string list \<Rightarrow> nat \<Rightarrow> int \<Rightarrow> nat \<times> int" where
  "matchSentinel circularBuffer scanIndex testIndex =
     (if scanIndex < length sentinelBuffer \<and>
         circularBuffer ! nat testIndex = sentinelBuffer ! scanIndex
      then matchSentinel circularBuffer (scanIndex + 1)
             (if testIndex - 1 < 0 then int (length circularBuffer) - 1 else testIndex - 1)
      else (scanIndex, testIndex))"
  by pat_completeness auto
termination
  by (relation "measure (\<lambda>(b, s, t). length sentinelBuffer - s)") auto

text \<open>The state of the scan: the ring, the write position and the index so far.\<close>

record rcsScan =
  circularBuffer :: "string list"
  bufferPosition :: int
  scanned :: filemap

definition scanRCSLine :: "(string \<Rightarrow> string) \<Rightarrow> string \<Rightarrow> bool \<Rightarrow> rcsScan \<Rightarrow> string \<Rightarrow> rcsScan" where
  "scanRCSLine unicodeLower normalizedPath caseSensitive st line =
     (let buf = (circularBuffer st)[nat (bufferPosition st) := line];
          pos = (bufferPosition st + 1) mod int (length buf);
          st' = st\<lparr>circularBuffer := buf, bufferPosition := pos\<rparr>
      in if line = ''text'' then
           (let testIndex = (if pos - 1 < 0 then int (length buf) - 1 else pos - 1);
                (scanIndex, testIndex') = matchSentinel buf 0 testIndex
            in if scanIndex = length sentinelBuffer
               then st'\<lparr>scanned := registerExistingPath unicodeLower (scanned st')
                                      (normalizedPath @ ''/'' @ buf ! nat testIndex')
                                      caseSensitive\<rparr>
               else st')
         else st')"

datatype error = OpenError | RCSError error | WalkError

text \<open>
  \<open>readVersionsFromRCS\<close>: the file is \<open>None\<close> when it cannot be opened, otherwise the
  lines that \<open>bufio.Scanner\<close> delivers. The result is the error (or none) and the index.
\<close>

definition readVersionsFromRCS ::
  "(string \<Rightarrow> string) \<Rightarrow> string list option \<Rightarrow> string \<Rightarrow> filemap \<Rightarrow> bool \<Rightarrow> error option \<times> filemap" where
  "readVersionsFromRCS unicodeLower file normalizedPath filemap caseSensitive =
     (case file of
        None \<Rightarrow> (Some OpenError, filemap)
      | Some fileLines \<Rightarrow>
          (None, scanned (foldl (scanRCSLine unicodeLower normalizedPath caseSensitive)
                           \<lparr>circularBuffer = replicate 4 [], bufferPosition = 0,
                            scanned = filemap\<rparr> fileLines)))"

text \<open>
  The last four lines written to the ring, the most recent first: the slot before the
  write position holds the most recent line, the slot at the write position the oldest.
  The ring is well formed when it has its four slots and the write position is one of
  them.
\<close>

definition lastFour :: "rcsScan \<Rightarrow> string list" where
  "lastFour st =
     (let buf = circularBuffer st; p = nat (bufferPosition st)
      in [buf ! ((p + 3) mod 4), buf ! ((p + 2) mod 4), buf ! ((p + 1) mod 4), buf ! p])"

definition ringOk :: "rcsScan \<Rightarrow> bool" where
  "ringOk st \<longleftrightarrow>
     length (circularBuffer st) = 4 \<and> 0 \<le> bufferPosition st \<and> bufferPosition st < 4"

text \<open>
  The shape of an RCS text, read off its lines. The last four lines of a prefix, the
  most recent first, padded with empty strings as the fresh ring is. Line \<open>j\<close> ends a
  sentinel when it is \<open>text\<close> and the two lines before it are \<open>@@\<close> and \<open>log\<close>; the
  revision of that sentinel is the line before the \<open>log\<close> (the empty string when
  \<open>log\<close> is the first line).
\<close>

definition lastLines :: "string list \<Rightarrow> string list" where
  "lastLines ps = take 4 (rev ps @ replicate 4 [])"

definition sentinelAt :: "string list \<Rightarrow> nat \<Rightarrow> bool" where
  "sentinelAt ls j \<longleftrightarrow>
     2 \<le> j \<and> j < length ls \<and> ls ! j = ''text'' \<and> ls ! (j - 1) = ''@@'' \<and> ls ! (j - 2) = ''log''"

definition revisionAt :: "string list \<Rightarrow> nat \<Rightarrow> string" where
  "revisionAt ls j = (if 3 \<le> j then ls ! (j - 3) else [])"

definition sentinelRevisions :: "string list \<Rightarrow> string list" where
  "sentinelRevisions ls = map (revisionAt ls) (filter (sentinelAt ls) [0..<length ls])"

subsection \<open>Walking the depot\<close>

text \<open>
  What the directory walker hands to the callback: the path, whether it is a directory,
  and (for a file) what opening and reading it gives.
\<close>

record dirent =
  osPathname :: string
  isDir :: bool
  fileContent :: "string list option"

text \<open>
  The normalised path of an entry: the depot path is taken out of the path once,
  backslashes become forward slashes, leading and trailing slashes are trimmed, and
  \<open>//\<close> is put in front.
\<close>

definition normalizedPathOf :: "string \<Rightarrow> string \<Rightarrow> string" where
  "normalizedPathOf depotPath osPath =
     ''//'' @ Trim (ReplaceAll (RemoveFirst osPath depotPath) (CHR 0x5C) CHR ''/'') ''/''"

text \<open>The callback that \<open>listVersionedFiles\<close> passes to the walker.\<close>

definition walkCallback ::
  "(string \<Rightarrow> string) \<Rightarrow> string \<Rightarrow> bool \<Rightarrow> dirent \<Rightarrow> filemap \<Rightarrow> error option \<times> filemap" where
  "walkCallback unicodeLower depotPath caseSensitive de filemap =
     (if isDir de then (None, filemap)
      else
        let normalizedPath = normalizedPathOf depotPath (osPathname de)
        in if suffix '',v'' normalizedPath then
             (case readVersionsFromRCS unicodeLower (fileContent de) normalizedPath filemap caseSensitive of
                (Some err, filemap') \<Rightarrow> (Some (RCSError err), filemap')
              | (None, filemap') \<Rightarrow> (None, filemap'))
           else (None, registerExistingPath unicodeLower filemap normalizedPath caseSensitive))"

text \<open>
  \<open>godirwalk.Walk\<close> with no \<open>ErrorCallback\<close> in its options: the callback is called on
  each entry in the order of the enumeration, and the first error a callback returns
  ends the walk, which returns that error.
\<close>

fun Walk ::
  "dirent list \<Rightarrow> (dirent \<Rightarrow> filemap \<Rightarrow> error option \<times> filemap) \<Rightarrow> filemap
     \<Rightarrow> error option \<times> filemap" where
  "Walk [] callback filemap = (None, filemap)"
| "Walk (de # rest) callback filemap =
     (case callback de filemap of
        (Some err, filemap') \<Rightarrow> (Some err, filemap')
      | (None, filemap') \<Rightarrow> Walk rest callback filemap')"

text \<open>
  \<open>listVersionedFiles\<close>: the tree is the enumeration of the root path (the depot path
  joined with the filter), \<open>None\<close> when the root cannot be walked at all. The result is
  the index and the error of the walk.
\<close>

definition listVersionedFiles ::
  "(string \<Rightarrow> string) \<Rightarrow> string \<Rightarrow> dirent list option \<Rightarrow> bool \<Rightarrow> filemap \<times> error option" where
  "listVersionedFiles unicodeLower depotPath tree caseSensitive =
     (case tree of
        None \<Rightarrow> (Map.empty, Some WalkError)
      | Some entries \<Rightarrow>
          (case Walk entries (walkCallback unicodeLower depotPath caseSensitive) Map.empty of
             (err, filemap) \<Rightarrow> (filemap, err)))"

subsection \<open>The journal scanner and the verification of one record\<close>

definition DbStorageJournalFieldCount :: int where
  "DbStorageJournalFieldCount = 12"

definition RCSStorageType :: int where
  "RCSStorageType = 0"

text \<open>
  The part of the loop body of \<open>processDbStorageEntries\<close> that reads one line: the
  pre-filters, the filename, the prefix filter, the revision token and the file type.
  \<open>Inl\<close> is a line that yields no record (\<open>Skip\<close>, \<open>Warn\<close>) or a panic.
\<close>

definition scanLine :: "string \<Rightarrow> string \<Rightarrow> fault + (string \<times> string \<times> int)" where
  "scanLine filterArg line =
     (let parts = Split line CHR '' '' in
      if length parts < 4 then Inl Skip
      else if parts ! 0 \<noteq> ''@pv@'' then Inl Skip
      else if parts ! 2 \<noteq> ''@db.storage@'' then Inl Skip
      else
        let filenameExtraPartCount = int (length parts) - DbStorageJournalFieldCount in
        andThen (slice parts 3 (3 + filenameExtraPartCount)) (\<lambda>fparts.
        let filename = Trim (Join fparts '' '') ''@'' in
        if length filterArg > 0 \<and> \<not> prefix filterArg filename then Inl Skip
        else
          andThen (index parts (3 + filenameExtraPartCount)) (\<lambda>revision.
          andThen (index parts (4 + filenameExtraPartCount)) (\<lambda>typeToken.
          andThen (orWarn (Atoi typeToken) typeToken) (\<lambda>fileType.
          Inr (filename, revision, fileType))))))"

text \<open>The expected on-disk path of a record; the slice \<open>revision[1:len(revision)-1]\<close>
  panics on a token shorter than two bytes.\<close>

definition versionedFilePath :: "string \<Rightarrow> string \<Rightarrow> int \<Rightarrow> fault + string" where
  "versionedFilePath filename revision fileType =
     (let serverFileType = fileType AND 15 in
      andThen (slice revision 1 (int (length revision) - 1)) (\<lambda>stripped.
      if serverFileType = RCSStorageType then Inr (filename @ '',v/'' @ stripped)
      else Inr (filename @ '',d/'' @ stripped)))"

text \<open>The state of the loop: the two counters and what was logged.\<close>

record vstate =
  fileCount :: nat
  missingCount :: nat
  missingLog :: "string list"
  warningLog :: "string list"

definition verifyRecord :: "(string \<Rightarrow> string) \<Rightarrow> filemap \<Rightarrow> bool \<Rightarrow> string \<Rightarrow> vstate \<Rightarrow> vstate" where
  "verifyRecord unicodeLower filemap caseSensitive path st =
     (let exists = pathExistsOnDisk unicodeLower filemap path caseSensitive;
          exists' = (if \<not> exists then pathExistsOnDisk unicodeLower filemap (path @ ''.gz'') caseSensitive
                     else exists);
          st' = (if \<not> exists'
                 then st\<lparr>missingCount := missingCount st + 1,
                         missingLog := missingLog st @ [path]\<rparr>
                 else st)
      in st'\<lparr>fileCount := fileCount st' + 1\<rparr>)"

text \<open>One iteration of the loop: \<open>Inl Panic\<close> when the iteration panics, otherwise the
  state the next iteration starts from.\<close>

definition processLine ::
  "(string \<Rightarrow> string) \<Rightarrow> filemap \<Rightarrow> string \<Rightarrow> bool \<Rightarrow> string \<Rightarrow> vstate \<Rightarrow> fault + vstate" where
  "processLine unicodeLower filemap filterArg caseSensitive line st =
     (case scanLine filterArg line of
        Inl Skip \<Rightarrow> Inr st
      | Inl (Warn w) \<Rightarrow> Inr (st\<lparr>warningLog := warningLog st @ [w]\<rparr>)
      | Inl Panic \<Rightarrow> Inl Panic
      | Inr (filename, revision, fileType) \<Rightarrow>
          andThen (versionedFilePath filename revision fileType) (\<lambda>path.
          Inr (verifyRecord unicodeLower filemap caseSensitive path st)))"

fun processLines ::
  "(string \<Rightarrow> string) \<Rightarrow> filemap \<Rightarrow> string \<Rightarrow> bool \<Rightarrow> string list \<Rightarrow> vstate \<Rightarrow> fault + vstate" where
  "processLines unicodeLower filemap filterArg caseSensitive [] st = Inr st"
| "processLines unicodeLower filemap filterArg caseSensitive (line # rest) st =
     (case processLine unicodeLower filemap filterArg caseSensitive line st of
        Inl f \<Rightarrow> Inl f
      | Inr st' \<Rightarrow> processLines unicodeLower filemap filterArg caseSensitive rest st')"

definition initState :: vstate where
  "initState = \<lparr>fileCount = 0, missingCount = 0, missingLog = [], warningLog = []\<rparr>"

text \<open>
  \<open>processDbStorageEntries\<close>: the journal is \<open>None\<close> when the file cannot be opened
  (the function then returns an error), otherwise the lines that \<open>bufio.Scanner\<close>
  delivers. \<open>Inl Panic\<close> is a run that panicked; \<open>Inr (err, st)\<close> is a run that
  returned \<open>err\<close>.
\<close>

definition processDbStorageEntries ::
  "(string \<Rightarrow> string) \<Rightarrow> string list option \<Rightarrow> filemap \<Rightarrow> string \<Rightarrow> bool \<Rightarrow> fault + (error option \<times> vstate)" where
  "processDbStorageEntries unicodeLower journal filemap filterArg caseSensitive =
     (case journal of
        None \<Rightarrow> Inr (Some OpenError, initState)
      | Some journalLines \<Rightarrow>
          andThen (processLines unicodeLower filemap filterArg caseSensitive journalLines initState) (\<lambda>st.
          Inr (None, st)))"

text \<open>
  \<open>main\<close>, after the flags are parsed and two arguments are present: the error of
  \<open>listVersionedFiles\<close> is assigned to the blank identifier, and the exit status is 1
  exactly when \<open>processDbStorageEntries\<close> returns an error.
\<close>

definition main ::
  "(string \<Rightarrow> string) \<Rightarrow> string list option \<Rightarrow> string \<Rightarrow> dirent list option \<Rightarrow> string \<Rightarrow> bool
     \<Rightarrow> fault + (nat \<times> vstate)" where
  "main unicodeLower journal depotPath tree filterArg caseSensitive =
     (case listVersionedFiles unicodeLower depotPath tree caseSensitive of
        (filemap, _) \<Rightarrow>
          andThen (processDbStorageEntries unicodeLower journal filemap filterArg caseSensitive)
            (\<lambda>(err, st). Inr (if err \<noteq> None then 1 else 0, st)))"

section \<open>p4_storage_to_csv\<close>

definition DbStorageFieldFileMarker :: int where "DbStorageFieldFileMarker = 3"
definition DbStorageFieldRev :: int where "DbStorageFieldRev = 3"
definition DbStorageFieldType :: int where "DbStorageFieldType = 4"
definition DbStorageFieldRefCount :: int where "DbStorageFieldRefCount = 5"
definition DbStorageFieldDigest :: int where "DbStorageFieldDigest = 6"
definition DbStorageFieldSize :: int where "DbStorageFieldSize = 7"
definition DbStorageFieldServerSize :: int where "DbStorageFieldServerSize = 8"
definition DbStorageFieldCompCksum :: int where "DbStorageFieldCompCksum = 9"
definition DbStorageFieldDate :: int where "DbStorageFieldDate = 10"

definition FileTypeBitMaskServerStorageType :: "64 word" where
  "FileTypeBitMaskServerStorageType = 0xF"
definition FileTypeBitMaskServerStorageTypeModifier :: "64 word" where
  "FileTypeBitMaskServerStorageTypeModifier = 0xF0"
definition FileTypeBitMaskRevisionsNumber :: "64 word" where
  "FileTypeBitMaskRevisionsNumber = 0xF00"
definition FileTypeBitMaskClientStorageType :: "64 word" where
  "FileTypeBitMaskClientStorageType = 0x10D0000"
definition FileTypeBitMaskClientStorageTypeModifier :: "64 word" where
  "FileTypeBitMaskClientStorageTypeModifier = 0x720000"

text \<open>The five sub-fields that the loop body takes out of the packed file type.\<close>

record decodedFileType =
  serverFileType :: "64 word"
  serverFileTypeModifier :: "64 word"
  revisionsNumber :: "64 word"
  clientFileType :: "64 word"
  clientFileTypeModifier :: "64 word"

definition decodeFileType :: "64 word \<Rightarrow> decodedFileType" where
  "decodeFileType fileType =
     \<lparr>serverFileType = fileType AND FileTypeBitMaskServerStorageType,
      serverFileTypeModifier = fileType AND FileTypeBitMaskServerStorageTypeModifier,
      revisionsNumber = fileType AND FileTypeBitMaskRevisionsNumber,
      clientFileType = fileType AND FileTypeBitMaskClientStorageType,
      clientFileTypeModifier = fileType AND FileTypeBitMaskClientStorageTypeModifier\<rparr>"

text \<open>One row of the output, before its numbers are formatted as text.\<close>

record storageRow =
  LibrarianFile :: string
  LibrarianRevision :: string
  FileType :: "64 word"
  Decoded :: decodedFileType
  ReferenceCount :: int
  MD5OfLibrarianFile :: string
  FileSize :: int
  FileSizeOnServer :: int
  DigestOfCompressedFile :: string
  LastUpdateDate :: int

text \<open>The loop body of the export tool's \<open>processDbStorageEntries\<close> on one line.\<close>

definition scanLineCsv :: "string \<Rightarrow> fault + storageRow" where
  "scanLineCsv line =
     (let parts = Split line CHR '' '' in
      if length parts < 4 then Inl Skip
      else if parts ! 0 \<noteq> ''@pv@'' then Inl Skip
      else if parts ! 2 \<noteq> ''@db.storage@'' then Inl Skip
      else
        let filenameExtraPartCount = int (length parts) - DbStorageJournalFieldCount in
        andThen (slice parts DbStorageFieldFileMarker
                   (DbStorageFieldFileMarker + filenameExtraPartCount)) (\<lambda>fparts.
        let filename = Trim (Join fparts '' '') ''@'' in
        andThen (index parts (DbStorageFieldRev + filenameExtraPartCount)) (\<lambda>revision.
        andThen (index parts (DbStorageFieldType + filenameExtraPartCount)) (\<lambda>typeToken.
        andThen (orWarn (ParseUint typeToken) typeToken) (\<lambda>fileType.
        andThen (index parts (DbStorageFieldRefCount + filenameExtraPartCount)) (\<lambda>refToken.
        andThen (orWarn (Atoi refToken) refToken) (\<lambda>refCount.
        andThen (index parts (DbStorageFieldDigest + filenameExtraPartCount)) (\<lambda>digest.
        andThen (index parts (DbStorageFieldSize + filenameExtraPartCount)) (\<lambda>sizeToken.
        andThen (orWarn (ParseInt sizeToken) sizeToken) (\<lambda>size.
        andThen (index parts (DbStorageFieldServerSize + filenameExtraPartCount)) (\<lambda>ssToken.
        andThen (orWarn (ParseInt ssToken) ssToken) (\<lambda>serverSize.
        andThen (index parts (DbStorageFieldCompCksum + filenameExtraPartCount)) (\<lambda>compCksum.
        andThen (index parts (DbStorageFieldDate + filenameExtraPartCount)) (\<lambda>dateToken.
        andThen (orWarn (Atoi dateToken) dateToken) (\<lambda>date.
        Inr \<lparr>LibrarianFile = filename, LibrarianRevision = revision, FileType = fileType,
             Decoded = decodeFileType fileType, ReferenceCount = refCount,
             MD5OfLibrarianFile = digest, FileSize = size, FileSizeOnServer = serverSize,
             DigestOfCompressedFile = compCksum, LastUpdateDate = date\<rparr>)))))))))))))))"

text \<open>
  The export tool's \<open>processDbStorageEntries\<close>: the rows written after the header, in
  order (their count is \<open>fileCount\<close>); \<open>None\<close> is a journal that cannot be opened.
\<close>

fun processLinesCsv :: "string list \<Rightarrow> storageRow list \<Rightarrow> fault + storageRow list" where
  "processLinesCsv [] rows = Inr rows"
| "processLinesCsv (line # rest) rows =
     (case scanLineCsv line of
        Inl Panic \<Rightarrow> Inl Panic
      | Inl _ \<Rightarrow> processLinesCsv rest rows
      | Inr row \<Rightarrow> processLinesCsv rest (rows @ [row]))"

definition processDbStorageEntriesCsv ::
  "string list option \<Rightarrow> fault + (error option \<times> storageRow list)" where
  "processDbStorageEntriesCsv journal =
     (case journal of
        None \<Rightarrow> Inr (Some OpenError, [])
      | Some journalLines \<Rightarrow>
          andThen (processLinesCsv journalLines []) (\<lambda>rows. Inr (None, rows)))"

section \<open>Lines shorter than the twelve journal fields\<close>

lemma scanLine_short_panics:
  assumes "4 \<le> length (Split line CHR '' '')"
    and "Split line CHR '' '' ! 0 = ''@pv@''"
    and "Split line CHR '' '' ! 2 = ''@db.storage@''"
    and "length (Split line CHR '' '') < 12"
  shows "scanLine filterArg line = Inl Panic"
  using assms
  by (simp add: scanLine_def Let_def DbStorageJournalFieldCount_def slice_def andThen_def)

text \<open>
  C2. A line that passes the pre-filters and has fewer than twelve tokens is not skipped:
  the slice \<open>parts[3:3+filenameExtraPartCount]\<close> panics, in the verification tool and
  in the export tool alike, and the run over the journal ends there without reaching
  the lines that follow. Here the line has four tokens and the next line is a
  well-formed record.
\<close>

theorem short_line_panics:
  "scanLine [] ''@pv@ 3 @db.storage@ @//depot/a@'' = Inl Panic \<and>
   scanLineCsv ''@pv@ 3 @db.storage@ @//depot/a@'' = Inl Panic \<and>
   processDbStorageEntries ul
     (Some [''@pv@ 3 @db.storage@ @//depot/a@'',
            ''@pv@ 3 @db.storage@ @//depot/b@ @1.1@ 1 1 ABC 100 100 XYZ 1610000000 ''])
     Map.empty [] True = Inl Panic"
  by (simp add: processDbStorageEntries_def processLine_def scanLine_def scanLineCsv_def
      Let_def DbStorageJournalFieldCount_def DbStorageFieldFileMarker_def slice_def
      andThen_def)

section \<open>The revision token of a record\<close>

lemma slice_inner:
  "2 \<le> length s \<Longrightarrow> slice s 1 (int (length s) - 1) = Inr (butlast (tl s))"
  by (cases s) (auto simp add: slice_def butlast_conv_take nat_diff_distrib)

lemma slice_short_panics:
  "length s < 2 \<Longrightarrow> slice s 1 (int (length s) - 1) = Inl Panic"
  by (simp add: slice_def)

text \<open>
  C9. The path construction takes \<open>revision[1:len(revision)-1]\<close>. On a revision token
  of one byte, or on an empty one, that slice expression is out of range: the
  construction panics instead of giving a path, and a journal holding such a line ends
  the run at that line, before the well-formed record that follows it.
\<close>

theorem short_revision_token_panics:
  "versionedFilePath ''//depot/a'' ''#'' 0 = Inl Panic \<and>
   versionedFilePath ''//depot/a'' [] 0 = Inl Panic \<and>
   processDbStorageEntries ul
     (Some [''@pv@ 3 @db.storage@ @//depot/a@ # 0 1 ABC 100 100 XYZ 1610000000 '',
            ''@pv@ 3 @db.storage@ @//depot/b@ @1.1@ 1 1 ABC 100 100 XYZ 1610000000 ''])
     Map.empty [] True = Inl Panic"
  by (simp add: processDbStorageEntries_def processLine_def scanLine_def Let_def
      DbStorageJournalFieldCount_def slice_def index_def andThen_def orWarn_def
      Atoi_def ParseInt_def isDigit_def digitsValue_def versionedFilePath_def)

section \<open>The expected path and the missing report\<close>

text \<open>
  What the iteration does with a record whose revision token has at least two bytes:
  the expected path is the filename, then \<open>,v/\<close> when the low four bits of the file
  type are 0 (RCS) and \<open>,d/\<close> otherwise, then the revision token without its first
  and last byte. The record is counted, and it is counted and logged as missing exactly
  when neither the path nor the path with \<open>.gz\<close> is a key of the index; the key of a
  path is the path itself in case-sensitive mode and what \<open>strings.ToLower\<close> makes of
  it otherwise, as at registration.
\<close>

lemma path_and_missing_of_record:
  assumes "scanLine filterArg line = Inr (filename, revision, fileType)"
    and "2 \<le> length revision"
  shows "let path = filename @ (if fileType AND 15 = 0 then '',v/'' else '',d/'')
                      @ butlast (tl revision);
             key = (\<lambda>p. if caseSensitive then p else ToLower ul p);
             missing = (key path \<notin> dom filemap \<and> key (path @ ''.gz'') \<notin> dom filemap)
         in versionedFilePath filename revision fileType = Inr path \<and>
            processLine ul filemap filterArg caseSensitive line st =
              Inr (st\<lparr>fileCount := fileCount st + 1,
                      missingCount := missingCount st + (if missing then 1 else 0),
                      missingLog := missingLog st @ (if missing then [path] else [])\<rparr>)"
  using assms
  by (auto simp add: Let_def processLine_def versionedFilePath_def slice_inner andThen_def
      verifyRecord_def pathExistsOnDisk_def RCSStorageType_def dom_def)

lemma path_and_missing_example:
  "processLine ul [''//depot/a,v/1.1.gz'' \<mapsto> 1] [] True
     ''@pv@ 3 @db.storage@ @//depot/a@ @1.1@ 0 1 ABC 100 100 XYZ 1610000000 '' initState
     = Inr \<lparr>fileCount = 1, missingCount = 0, missingLog = [], warningLog = []\<rparr>"
proof -
  have h: "scanLine [] ''@pv@ 3 @db.storage@ @//depot/a@ @1.1@ 0 1 ABC 100 100 XYZ 1610000000 ''
             = Inr (''//depot/a'', ''@1.1@'', 0)"
    by (simp add: scanLine_def Let_def DbStorageJournalFieldCount_def slice_def index_def
        andThen_def orWarn_def Atoi_def ParseInt_def isDigit_def digitsValue_def Trim_def)
  show ?thesis
    using path_and_missing_of_record
      [OF h, of True ul "[''//depot/a,v/1.1.gz'' \<mapsto> 1]" initState]
    by (simp add: initState_def Let_def)
qed

text \<open>
  C3. Not every record has an expected path and a verdict. The line below has an empty
  revision token (two adjacent spaces); the scanner reads it as a record, with the
  filename \<open>//depot/a\<close> and the file type 0. The path of the claim is
  \<open>//depot/a,v/\<close>, which the index holds, so the record is present. The code builds
  no path: \<open>revision[1:len(revision)-1]\<close> panics, the record is neither counted nor
  given a verdict, and the run ends.
\<close>

theorem record_without_path_or_verdict:
  "scanLine [] ''@pv@ 3 @db.storage@ @//depot/a@  0 1 ABC 100 100 XYZ 1610000000 ''
     = Inr (''//depot/a'', [], 0) \<and>
   pathExistsOnDisk ul [''//depot/a,v/'' \<mapsto> 1] (''//depot/a'' @ '',v/'' @ []) True \<and>
   versionedFilePath ''//depot/a'' [] 0 = Inl Panic \<and>
   processLine ul [''//depot/a,v/'' \<mapsto> 1] [] True
     ''@pv@ 3 @db.storage@ @//depot/a@  0 1 ABC 100 100 XYZ 1610000000 '' initState
     = Inl Panic"
  by (simp add: processLine_def scanLine_def Let_def DbStorageJournalFieldCount_def
      slice_def index_def andThen_def orWarn_def Atoi_def ParseInt_def isDigit_def
      digitsValue_def versionedFilePath_def Trim_def pathExistsOnDisk_def)

section \<open>Errors while the index is built\<close>

lemma main_unwalkable_root:
  "main ul journal depotPath None filterArg caseSensitive =
     andThen (processDbStorageEntries ul journal Map.empty filterArg caseSensitive)
       (\<lambda>(err, st). Inr (if err \<noteq> None then 1 else 0, st))"
  by (simp add: main_def listVersionedFiles_def)

text \<open>
  C4. When the root cannot be walked, \<open>listVersionedFiles\<close> returns the error with an
  empty index, but \<open>main\<close> drops that error: the verification runs against the empty
  index, the record of the journal is counted as missing, and the exit status is 0.
\<close>

theorem unwalkable_root_run_continues:
  "listVersionedFiles ul ''/p4/root'' None True = (Map.empty, Some WalkError) \<and>
   main ul (Some [''@pv@ 3 @db.storage@ @//depot/b@ @1.1@ 1 1 ABC 100 100 XYZ 1610000000 ''])
     ''/p4/root'' None [] True
     = Inr (0, \<lparr>fileCount = 1, missingCount = 1, missingLog = [''//depot/b,d/1.1''],
                warningLog = []\<rparr>)"
  by (simp add: main_def listVersionedFiles_def processDbStorageEntries_def processLine_def
      scanLine_def Let_def DbStorageJournalFieldCount_def slice_def index_def andThen_def
      orWarn_def initState_def Atoi_def ParseInt_def isDigit_def digitsValue_def
      versionedFilePath_def verifyRecord_def pathExistsOnDisk_def RCSStorageType_def Trim_def)

lemma Walk_append:
  "Walk (pre @ rest) cb fm =
     (case Walk pre cb fm of
        (Some e, fm') \<Rightarrow> (Some e, fm')
      | (None, fm') \<Rightarrow> Walk rest cb fm')"
  by (induction pre arbitrary: fm) (auto split: prod.splits option.splits)

lemma walkCallback_unopenable:
  assumes "\<not> isDir de" and "suffix '',v'' (normalizedPathOf depotPath (osPathname de))"
    and "fileContent de = None"
  shows "walkCallback ul depotPath cs de fm = (Some (RCSError OpenError), fm)"
  using assms by (simp add: walkCallback_def readVersionsFromRCS_def)

text \<open>
  C7, as the code has it. An RCS container that cannot be opened makes the callback
  return an error, and the walk ends there: the index holds what the entries before the
  container gave, nothing of the entries after it, and \<open>listVersionedFiles\<close> returns
  that index together with the error.
\<close>

theorem unopenable_container_stops_walk:
  assumes "\<not> isDir de" and "suffix '',v'' (normalizedPathOf depotPath (osPathname de))"
    and "fileContent de = None"
    and "listVersionedFiles ul depotPath (Some pre) cs = (fm, None)"
  shows "listVersionedFiles ul depotPath (Some (pre @ de # post)) cs
           = (fm, Some (RCSError OpenError))"
  using assms(4) walkCallback_unopenable [OF assms(1-3)]
  by (auto simp add: listVersionedFiles_def Walk_append split: prod.splits option.splits)

theorem unopenable_container_stops_walk_witness:
  "\<not> isDir \<lparr>osPathname = ''/p4/root/depot/a,v'', isDir = False, fileContent = None\<rparr> \<and>
   suffix '',v'' (normalizedPathOf ''/p4/root''
     (osPathname \<lparr>osPathname = ''/p4/root/depot/a,v'', isDir = False, fileContent = None\<rparr>)) \<and>
   listVersionedFiles (\<lambda>s. s) ''/p4/root''
     (Some [\<lparr>osPathname = ''/p4/root/depot/c,d/1.2'', isDir = False, fileContent = None\<rparr>]) True
     = ([''//depot/c,d/1.2'' \<mapsto> 1], None) \<and>
   listVersionedFiles (\<lambda>s. s) ''/p4/root''
     (Some ([\<lparr>osPathname = ''/p4/root/depot/c,d/1.2'', isDir = False, fileContent = None\<rparr>] @
            \<lparr>osPathname = ''/p4/root/depot/a,v'', isDir = False, fileContent = None\<rparr> #
            [\<lparr>osPathname = ''/p4/root/depot/b,d/1.1'', isDir = False, fileContent = None\<rparr>]))
     True
     = ([''//depot/c,d/1.2'' \<mapsto> 1], Some (RCSError OpenError))"
proof -
  have s: "suffix '',v'' (normalizedPathOf ''/p4/root'' ''/p4/root/depot/a,v'')"
    by (simp add: normalizedPathOf_def Trim_def ReplaceAll_def suffix_to_prefix)
  have p: "listVersionedFiles (\<lambda>s. s) ''/p4/root''
     (Some [\<lparr>osPathname = ''/p4/root/depot/c,d/1.2'', isDir = False, fileContent = None\<rparr>]) True
     = ([''//depot/c,d/1.2'' \<mapsto> 1], None)"
    by (simp add: listVersionedFiles_def walkCallback_def normalizedPathOf_def Trim_def
        ReplaceAll_def registerExistingPath_def Let_def suffix_to_prefix)
  show ?thesis
    using s p
      unopenable_container_stops_walk
        [of "\<lparr>osPathname = ''/p4/root/depot/a,v'', isDir = False, fileContent = None\<rparr>"
            "''/p4/root''" "\<lambda>s. s"
            "[\<lparr>osPathname = ''/p4/root/depot/c,d/1.2'', isDir = False, fileContent = None\<rparr>]"
            True "[''//depot/c,d/1.2'' \<mapsto> 1]"
            "[\<lparr>osPathname = ''/p4/root/depot/b,d/1.1'', isDir = False, fileContent = None\<rparr>]"]
    by simp
qed

text \<open>
  C7, as the claim has it, fails: with an unopenable container enumerated before a
  plain versioned file, that file is not in the index, although it is when the
  container is absent from the enumeration.
\<close>

theorem unopenable_container_counterexample:
  "\<not> pathExistsOnDisk (\<lambda>s. s)
       (fst (listVersionedFiles (\<lambda>s. s) ''/p4/root''
          (Some [\<lparr>osPathname = ''/p4/root/depot'', isDir = True, fileContent = None\<rparr>,
                 \<lparr>osPathname = ''/p4/root/depot/a,v'', isDir = False, fileContent = None\<rparr>,
                 \<lparr>osPathname = ''/p4/root/depot/b,d/1.1'', isDir = False, fileContent = None\<rparr>])
          True))
       ''//depot/b,d/1.1'' True \<and>
   pathExistsOnDisk (\<lambda>s. s)
       (fst (listVersionedFiles (\<lambda>s. s) ''/p4/root''
          (Some [\<lparr>osPathname = ''/p4/root/depot'', isDir = True, fileContent = None\<rparr>,
                 \<lparr>osPathname = ''/p4/root/depot/b,d/1.1'', isDir = False, fileContent = None\<rparr>])
          True))
       ''//depot/b,d/1.1'' True"
  by (simp add: listVersionedFiles_def walkCallback_def normalizedPathOf_def Trim_def
      ReplaceAll_def readVersionsFromRCS_def registerExistingPath_def pathExistsOnDisk_def
      Let_def suffix_to_prefix)

section \<open>Decoding the packed file type\<close>

lemma mask_disjoint:
  fixes x :: "64 word"
  shows "x AND a = x \<Longrightarrow> a AND b = 0 \<Longrightarrow> x AND b = 0"
  by (metis and.assoc and_zero_eq)

lemma storage_kind_in_mask:
  fixes k :: "64 word"
  assumes "k \<le> 8"
  shows "k AND 0xF = k"
proof -
  have "uint k \<le> 8" using assms by (simp add: word_le_def)
  then have "uint k < 2 ^ 4" by simp
  then have "k AND mask 4 = k" by (simp add: mask_eq_iff)
  then show ?thesis by (simp add: mask_eq_exp_minus_1)
qed

text \<open>
  C8. \<open>decodeFileType\<close> is a function of the integer alone. For a server storage kind
  \<open>k\<close> in 0..8 and for any bits \<open>m\<close>, \<open>r\<close>, \<open>ck\<close>, \<open>cm\<close> inside the masks of the server
  modifier, the retention bucket, the client kind and the client modifier, decoding the
  integer made of the five fields gives the five fields back.
\<close>

theorem decode_roundtrip:
  fixes k m r ck cm :: "64 word"
  assumes "k \<le> 8"
    and "m AND 0xF0 = m"
    and "r AND 0xF00 = r"
    and "ck AND 0x10D0000 = ck"
    and "cm AND 0x720000 = cm"
  shows "decodeFileType (k OR m OR r OR ck OR cm) =
           \<lparr>serverFileType = k, serverFileTypeModifier = m, revisionsNumber = r,
            clientFileType = ck, clientFileTypeModifier = cm\<rparr>"
proof -
  note k = storage_kind_in_mask [OF assms(1)]
  have d: "\<And>x a b :: 64 word. x AND a = x \<Longrightarrow> a AND b = 0 \<Longrightarrow> x AND b = 0"
    by (rule mask_disjoint)
  have "(k OR m OR r OR ck OR cm) AND 0xF = k"
    using k d [OF assms(2), of "0xF"] d [OF assms(3), of "0xF"] d [OF assms(4), of "0xF"]
      d [OF assms(5), of "0xF"]
    by (simp add: bit.conj_disj_distrib2)
  moreover have "(k OR m OR r OR ck OR cm) AND 0xF0 = m"
    using assms(2) d [OF k, of "0xF0"] d [OF assms(3), of "0xF0"] d [OF assms(4), of "0xF0"]
      d [OF assms(5), of "0xF0"]
    by (simp add: bit.conj_disj_distrib2)
  moreover have "(k OR m OR r OR ck OR cm) AND 0xF00 = r"
    using assms(3) d [OF k, of "0xF00"] d [OF assms(2), of "0xF00"]
      d [OF assms(4), of "0xF00"] d [OF assms(5), of "0xF00"]
    by (simp add: bit.conj_disj_distrib2)
  moreover have "(k OR m OR r OR ck OR cm) AND 0x10D0000 = ck"
    using assms(4) d [OF k, of "0x10D0000"] d [OF assms(2), of "0x10D0000"]
      d [OF assms(3), of "0x10D0000"] d [OF assms(5), of "0x10D0000"]
    by (simp add: bit.conj_disj_distrib2)
  moreover have "(k OR m OR r OR ck OR cm) AND 0x720000 = cm"
    using assms(5) d [OF k, of "0x720000"] d [OF assms(2), of "0x720000"]
      d [OF assms(3), of "0x720000"] d [OF assms(4), of "0x720000"]
    by (simp add: bit.conj_disj_distrib2)
  ultimately show ?thesis
    by (simp add: decodeFileType_def FileTypeBitMaskServerStorageType_def
        FileTypeBitMaskServerStorageTypeModifier_def FileTypeBitMaskRevisionsNumber_def
        FileTypeBitMaskClientStorageType_def FileTypeBitMaskClientStorageTypeModifier_def)
qed

theorem decode_roundtrip_witness:
  "(3 :: 64 word) \<le> 8 \<and> (0x20 :: 64 word) AND 0xF0 = 0x20 \<and>
   (0xA00 :: 64 word) AND 0xF00 = 0xA00 \<and>
   (0xD0000 :: 64 word) AND 0x10D0000 = 0xD0000 \<and>
   (0x120000 :: 64 word) AND 0x720000 = 0x120000 \<and>
   decodeFileType 0x1F0A23 =
     \<lparr>serverFileType = 3, serverFileTypeModifier = 0x20, revisionsNumber = 0xA00,
      clientFileType = 0xD0000, clientFileTypeModifier = 0x120000\<rparr>"
  using decode_roundtrip [of 3 "0x20" "0xA00" "0xD0000" "0x120000"] by simp

section \<open>Splitting, joining and trimming\<close>

lemma Split_nonempty: "Split s c \<noteq> []"
  by (induction s) (auto split: list.splits)

lemma Split_sep_append: "Split (s @ c # t) c = Split s c @ Split t c"
  by (induction s) (auto split: list.splits simp add: Split_nonempty)

lemma Split_no_sep: "c \<notin> set s \<Longrightarrow> Split s c = [s]"
  by (induction s) auto

lemma length_Split: "length (Split s c) = count_list s c + 1"
  by (induction s) (auto split: list.splits simp add: Split_nonempty)

lemma Join_Cons: "Join ((x # t) # ts) sep = x # Join (t # ts) sep"
  by (cases ts) auto

lemma Join_Split: "Join (Split s c) [c] = s"
proof (induction s)
  case Nil
  then show ?case by simp
next
  case (Cons x s)
  obtain t ts where ts: "Split s c = t # ts"
    using Split_nonempty [of s c] by (cases "Split s c") auto
  with Cons show ?case by (auto simp add: Join_Cons)
qed

lemma Join_step: "ys \<noteq> [] \<Longrightarrow> Join (x # ys) sep = x @ sep @ Join ys sep"
  by (cases ys) auto

lemma Split_Join_Cons:
  "ys \<noteq> [] \<Longrightarrow> Split (Join (x # ys) [c]) c = Split x c @ Split (Join ys [c]) c"
  by (simp add: Join_step Split_sep_append)

lemma Trim_wrapped:
  assumes "f \<noteq> [] \<longrightarrow> hd f \<noteq> d \<and> last f \<noteq> d"
  shows "Trim (d # f @ [d]) [d] = f"
proof (cases f)
  case Nil
  then show ?thesis by (simp add: Trim_def)
next
  case (Cons a as)
  with assms have "a \<noteq> d" "last (a # as) \<noteq> d" by auto
  then have "hd (rev (a # as)) \<noteq> d" by (simp add: hd_rev del: rev.simps)
  then obtain b bs where r: "rev (a # as) = b # bs" "b \<noteq> d" by (cases "rev (a # as)") auto
  have "Trim (d # (a # as) @ [d]) [d] = rev (dropWhile (\<lambda>c. c = d) (d # rev (a # as)))"
    using \<open>a \<noteq> d\<close> by (simp add: Trim_def)
  also have "\<dots> = rev (rev (a # as))" using r by simp
  finally show ?thesis using Cons by simp
qed

section \<open>The two scanners in normal form\<close>

text \<open>
  Each scanner as one case distinction over the tokens of the line, with \<open>n\<close> the
  number of tokens beyond twelve: the bounds checks of the slice and index expressions
  are resolved (they fail exactly when there are fewer than twelve tokens).
\<close>

lemma scanLine_unfold:
  "scanLine filterArg line =
     (let parts = Split line CHR '' ''; n = length parts - 12;
          filename = Trim (Join (take n (drop 3 parts)) '' '') ''@''
      in if length parts < 4 \<or> parts ! 0 \<noteq> ''@pv@'' \<or> parts ! 2 \<noteq> ''@db.storage@''
         then Inl Skip
         else if length parts < 12 then Inl Panic
         else if filterArg \<noteq> [] \<and> \<not> prefix filterArg filename then Inl Skip
         else (case Atoi (parts ! (4 + n)) of
                 None \<Rightarrow> Inl (Warn (parts ! (4 + n)))
               | Some t \<Rightarrow> Inr (filename, parts ! (3 + n), t)))"
  by (simp add: scanLine_def Let_def slice_def index_def andThen_def orWarn_def
      DbStorageJournalFieldCount_def nat_diff_distrib nat_add_distrib split: option.splits)

lemma scanLineCsv_unfold:
  "scanLineCsv line =
     (let parts = Split line CHR '' ''; n = length parts - 12;
          filename = Trim (Join (take n (drop 3 parts)) '' '') ''@''
      in if length parts < 4 \<or> parts ! 0 \<noteq> ''@pv@'' \<or> parts ! 2 \<noteq> ''@db.storage@''
         then Inl Skip
         else if length parts < 12 then Inl Panic
         else (case ParseUint (parts ! (4 + n)) of
                 None \<Rightarrow> Inl (Warn (parts ! (4 + n)))
               | Some fileType \<Rightarrow>
           (case Atoi (parts ! (5 + n)) of
                 None \<Rightarrow> Inl (Warn (parts ! (5 + n)))
               | Some refCount \<Rightarrow>
           (case ParseInt (parts ! (7 + n)) of
                 None \<Rightarrow> Inl (Warn (parts ! (7 + n)))
               | Some sz \<Rightarrow>
           (case ParseInt (parts ! (8 + n)) of
                 None \<Rightarrow> Inl (Warn (parts ! (8 + n)))
               | Some serverSize \<Rightarrow>
           (case Atoi (parts ! (10 + n)) of
                 None \<Rightarrow> Inl (Warn (parts ! (10 + n)))
               | Some date \<Rightarrow>
                   Inr \<lparr>LibrarianFile = filename, LibrarianRevision = parts ! (3 + n),
                        FileType = fileType, Decoded = decodeFileType fileType,
                        ReferenceCount = refCount, MD5OfLibrarianFile = parts ! (6 + n),
                        FileSize = sz, FileSizeOnServer = serverSize,
                        DigestOfCompressedFile = parts ! (9 + n),
                        LastUpdateDate = date\<rparr>))))))"
  by (simp add: scanLineCsv_def Let_def slice_def index_def andThen_def orWarn_def
      DbStorageJournalFieldCount_def DbStorageFieldFileMarker_def DbStorageFieldRev_def
      DbStorageFieldType_def DbStorageFieldRefCount_def DbStorageFieldDigest_def
      DbStorageFieldSize_def DbStorageFieldServerSize_def DbStorageFieldCompCksum_def
      DbStorageFieldDate_def nat_diff_distrib nat_add_distrib split: option.splits)

lemma Split_journal_line:
  assumes "CHR '' '' \<notin> set (ver @ revision @ typeTok @ refTok @ digest @ sizeTok @ ssizeTok
              @ cksum @ dateTok)"
  shows "Split (Join [''@pv@'', ver, ''@db.storage@'', F, revision, typeTok, refTok, digest,
                      sizeTok, ssizeTok, cksum, dateTok] '' '' @ '' '') CHR '' ''
           = [''@pv@'', ver, ''@db.storage@''] @ Split F CHR '' ''
             @ [revision, typeTok, refTok, digest, sizeTok, ssizeTok, cksum, dateTok, []]"
proof -
  have lit: "Split ''@pv@'' CHR '' '' = [''@pv@'']"
    "Split ''@db.storage@'' CHR '' '' = [''@db.storage@'']"
    by (simp_all add: Split_no_sep)
  have "Split (Join [''@pv@'', ver, ''@db.storage@'', F, revision, typeTok, refTok, digest,
                      sizeTok, ssizeTok, cksum, dateTok] '' '' @ CHR '' '' # []) CHR '' ''
          = Split (Join [''@pv@'', ver, ''@db.storage@'', F, revision, typeTok, refTok, digest,
                      sizeTok, ssizeTok, cksum, dateTok] '' '') CHR '' '' @ [[]]"
    by (simp only: Split_sep_append Split.simps)
  also have "Split (Join [''@pv@'', ver, ''@db.storage@'', F, revision, typeTok, refTok, digest,
                      sizeTok, ssizeTok, cksum, dateTok] '' '') CHR '' ''
          = Split ''@pv@'' CHR '' '' @ Split ver CHR '' '' @ Split ''@db.storage@'' CHR '' ''
            @ Split F CHR '' '' @ Split revision CHR '' '' @ Split typeTok CHR '' ''
            @ Split refTok CHR '' '' @ Split digest CHR '' '' @ Split sizeTok CHR '' ''
            @ Split ssizeTok CHR '' '' @ Split cksum CHR '' '' @ Split dateTok CHR '' ''"
    by (simp only: Split_Join_Cons Join.simps(2) list.distinct not_False_eq_True)
  finally show ?thesis
    using assms by (simp add: Split_no_sep lit del: Split.simps)
qed

section \<open>Filenames with spaces\<close>

text \<open>
  C1, as the code has it. A \<open>db.storage\<close> line in which the date field is followed by
  the field separator splits into \<open>13 + N\<close> tokens, the last one empty, when its
  filename holds \<open>N\<close> spaces. Then \<open>filenameExtraPartCount\<close> is \<open>N + 1\<close>, the tokens
  \<open>3, \<dots>, 3 + N\<close> (the half-open slice \<open>parts[3:3+filenameExtraPartCount]\<close>) joined
  with single spaces and trimmed of \<open>@\<close> are the filename, provided the filename does
  not itself begin or end with \<open>@\<close>, and every later field is read at its place: both
  tools give the record of the line. This holds for every \<open>N\<close>.
\<close>

theorem filename_recovered:
  assumes nosp: "CHR '' '' \<notin> set (ver @ revision @ typeTok @ refTok @ digest @ sizeTok
                   @ ssizeTok @ cksum @ dateTok)"
    and fn: "fname \<noteq> [] \<longrightarrow> hd fname \<noteq> CHR ''@'' \<and> last fname \<noteq> CHR ''@''"
    and ty: "Atoi typeTok = Some fileType" "ParseUint typeTok = Some fileTypeU"
    and nums: "Atoi refTok = Some refCount" "ParseInt sizeTok = Some fsize"
      "ParseInt ssizeTok = Some serverSize" "Atoi dateTok = Some date"
  shows "let line = Join [''@pv@'', ver, ''@db.storage@'', ''@'' @ fname @ ''@'', revision,
                          typeTok, refTok, digest, sizeTok, ssizeTok, cksum, dateTok] '' ''
                    @ '' ''
         in int (length (Split line CHR '' '')) - DbStorageJournalFieldCount
              = int (count_list fname CHR '' '') + 1 \<and>
            scanLine [] line = Inr (fname, revision, fileType) \<and>
            scanLineCsv line =
              Inr \<lparr>LibrarianFile = fname, LibrarianRevision = revision, FileType = fileTypeU,
                   Decoded = decodeFileType fileTypeU, ReferenceCount = refCount,
                   MD5OfLibrarianFile = digest, FileSize = fsize,
                   FileSizeOnServer = serverSize, DigestOfCompressedFile = cksum,
                   LastUpdateDate = date\<rparr>"
proof -
  define F where "F = ''@'' @ fname @ ''@''"
  define FS where "FS = Split F CHR '' ''"
  define R where "R = [revision, typeTok, refTok, digest, sizeTok, ssizeTok, cksum, dateTok, []]"
  define line where "line = Join [''@pv@'', ver, ''@db.storage@'', F, revision,
                          typeTok, refTok, digest, sizeTok, ssizeTok, cksum, dateTok] '' ''
                    @ '' ''"
  define parts where "parts = Split line CHR '' ''"
  have parts: "parts = ([''@pv@'', ver, ''@db.storage@''] @ FS) @ R"
    unfolding parts_def line_def FS_def R_def using Split_journal_line [OF nosp, of F] by simp
  have n: "length parts - 12 = length FS" "length parts = 12 + length FS"
    by (simp_all add: parts R_def)
  have count: "length FS = count_list fname CHR '' '' + 1"
    unfolding FS_def length_Split by (simp add: F_def)
  have "take (length FS) (drop 3 parts) = FS"
    by (simp add: parts)
  moreover have "Join FS '' '' = F"
    by (simp add: FS_def Join_Split)
  moreover have "Trim F ''@'' = fname"
    using Trim_wrapped [OF fn] by (simp add: F_def)
  ultimately have fname: "Trim (Join (take (length FS) (drop 3 parts)) '' '') ''@'' = fname"
    by simp
  have nth: "parts ! (3 + length FS + k) = R ! k" for k
    using nth_append_length_plus [of "[''@pv@'', ver, ''@db.storage@''] @ FS" R k]
    by (simp add: parts)
  have fields: "parts ! (3 + length FS) = revision" "parts ! (4 + length FS) = typeTok"
    "parts ! (5 + length FS) = refTok" "parts ! (6 + length FS) = digest"
    "parts ! (7 + length FS) = sizeTok" "parts ! (8 + length FS) = ssizeTok"
    "parts ! (9 + length FS) = cksum" "parts ! (10 + length FS) = dateTok"
    using nth [of 0] nth [of 1] nth [of 2] nth [of 3] nth [of 4] nth [of 5] nth [of 6]
      nth [of 7]
    by (simp_all add: R_def)
  have pre: "parts ! 0 = ''@pv@''" "parts ! 2 = ''@db.storage@''"
    by (simp_all add: parts)
  have a: "int (length parts) - DbStorageJournalFieldCount
             = int (count_list fname CHR '' '') + 1"
    by (simp add: n count DbStorageJournalFieldCount_def)
  have b: "scanLine [] line = Inr (fname, revision, fileType)"
    unfolding scanLine_unfold Let_def parts_def [symmetric]
    by (simp add: n fname fields pre ty)
  have c: "scanLineCsv line =
              Inr \<lparr>LibrarianFile = fname, LibrarianRevision = revision, FileType = fileTypeU,
                   Decoded = decodeFileType fileTypeU, ReferenceCount = refCount,
                   MD5OfLibrarianFile = digest, FileSize = fsize,
                   FileSizeOnServer = serverSize, DigestOfCompressedFile = cksum,
                   LastUpdateDate = date\<rparr>"
    unfolding scanLineCsv_unfold Let_def parts_def [symmetric]
    by (simp add: n fname fields pre ty nums)
  from a b c show ?thesis
    unfolding Let_def parts_def line_def F_def by simp
qed

theorem filename_recovered_witness:
  "CHR '' '' \<notin> set (''3'' @ ''@1.1@'' @ ''65539'' @ ''1'' @ ''ABC123'' @ ''100'' @ ''100''
       @ ''XYZ'' @ ''1610000000'') \<and>
   hd ''//depot/a b c d'' \<noteq> CHR ''@'' \<and> last ''//depot/a b c d'' \<noteq> CHR ''@'' \<and>
   Atoi ''65539'' = Some 65539 \<and> ParseUint ''65539'' = Some 65539 \<and>
   Atoi ''1'' = Some 1 \<and> ParseInt ''100'' = Some 100 \<and> Atoi ''1610000000'' = Some 1610000000 \<and>
   count_list ''//depot/a b c d'' CHR '' '' = 3 \<and>
   int (length (Split
     ''@pv@ 3 @db.storage@ @//depot/a b c d@ @1.1@ 65539 1 ABC123 100 100 XYZ 1610000000 ''
     CHR '' '')) - DbStorageJournalFieldCount = 4 \<and>
   scanLine []
     ''@pv@ 3 @db.storage@ @//depot/a b c d@ @1.1@ 65539 1 ABC123 100 100 XYZ 1610000000 ''
     = Inr (''//depot/a b c d'', ''@1.1@'', 65539) \<and>
   scanLineCsv
     ''@pv@ 3 @db.storage@ @//depot/a b c d@ @1.1@ 65539 1 ABC123 100 100 XYZ 1610000000 ''
     = Inr \<lparr>LibrarianFile = ''//depot/a b c d'', LibrarianRevision = ''@1.1@'',
            FileType = 65539, Decoded = decodeFileType 65539, ReferenceCount = 1,
            MD5OfLibrarianFile = ''ABC123'', FileSize = 100, FileSizeOnServer = 100,
            DigestOfCompressedFile = ''XYZ'', LastUpdateDate = 1610000000\<rparr>"
proof -
  have p: "Atoi ''65539'' = Some 65539" "ParseUint ''65539'' = Some 65539"
    "Atoi ''1'' = Some 1" "ParseInt ''100'' = Some 100" "Atoi ''1610000000'' = Some 1610000000"
    by (simp_all add: Atoi_def ParseInt_def ParseUint_def isDigit_def digitsValue_def)
  have s: "CHR '' '' \<notin> set (''3'' @ ''@1.1@'' @ ''65539'' @ ''1'' @ ''ABC123'' @ ''100''
       @ ''100'' @ ''XYZ'' @ ''1610000000'')"
    by simp
  have f: "''//depot/a b c d'' \<noteq> [] \<longrightarrow>
      hd ''//depot/a b c d'' \<noteq> CHR ''@'' \<and> last ''//depot/a b c d'' \<noteq> CHR ''@''"
    by simp
  show ?thesis
    using p s f
      filename_recovered [OF s f p(1) p(2) p(3) p(4) p(4) p(5)]
    by (simp add: Let_def)
qed

text \<open>
  C1, as the claim has it, fails on a line of \<open>12 + N\<close> tokens, such as the line of the
  specification's end-to-end scenario (\<open>N = 1\<close>, thirteen tokens, nothing after the
  date): \<open>filenameExtraPartCount\<close> is 1, the filename is taken from token 3 alone, so
  that a prefix filter equal to the original filename rejects the line while the filter
  \<open>//depot/a\<close> lets it pass; the revision token \<open>#1\<close> is then read as the file type,
  and both tools pass over the line with a warning. Were the revision token a number,
  the line would be accepted with the filename \<open>//depot/a\<close>.
\<close>

theorem filename_counterexample:
  "scanLine []
     ''@pv@ 3 @db.storage@ @//depot/a file.txt@ #1 0 1 ABC123 100 100 XYZ 1610000000''
     = Inl (Warn ''#1'') \<and>
   scanLine ''//depot/a file.txt''
     ''@pv@ 3 @db.storage@ @//depot/a file.txt@ #1 0 1 ABC123 100 100 XYZ 1610000000''
     = Inl Skip \<and>
   scanLine ''//depot/a''
     ''@pv@ 3 @db.storage@ @//depot/a file.txt@ #1 0 1 ABC123 100 100 XYZ 1610000000''
     = Inl (Warn ''#1'') \<and>
   scanLineCsv
     ''@pv@ 3 @db.storage@ @//depot/a file.txt@ #1 0 1 ABC123 100 100 XYZ 1610000000''
     = Inl (Warn ''#1'') \<and>
   scanLine []
     ''@pv@ 3 @db.storage@ @//depot/a file.txt@ 7 0 1 ABC123 100 100 XYZ 1610000000''
     = Inr (''//depot/a'', ''file.txt@'', 7)"
  by (simp add: scanLine_unfold scanLineCsv_unfold Let_def Trim_def
      Atoi_def ParseInt_def ParseUint_def isDigit_def digitsValue_def)

section \<open>The scanner of the export tool against the scanner of the verification tool\<close>

lemma isDigit_range: "isDigit c \<Longrightarrow> 48 \<le> (of_char c :: int)"
  by (auto simp add: isDigit_def)

lemma isDigit_not_sign: "isDigit c \<Longrightarrow> c \<noteq> CHR ''+'' \<and> c \<noteq> CHR ''-''"
  by (auto simp add: isDigit_def)

lemma foldl_digits_nonneg:
  "0 \<le> n \<Longrightarrow> list_all isDigit s \<Longrightarrow>
     0 \<le> foldl (\<lambda>n c. n * 10 + ((of_char c :: int) - 48)) n s"
proof (induction s arbitrary: n)
  case Nil
  then show ?case by simp
next
  case (Cons c s)
  from Cons.prems have "0 \<le> n * 10 + ((of_char c :: int) - 48)"
    using isDigit_range [of c] by simp
  with Cons show ?case by simp
qed

lemma digitsValue_nonneg: "list_all isDigit s \<Longrightarrow> 0 \<le> digitsValue s"
  by (simp add: digitsValue_def foldl_digits_nonneg)

lemma ParseUint_Some:
  assumes "ParseUint s = Some w"
  shows "s \<noteq> [] \<and> list_all isDigit s \<and> uint w = digitsValue s"
proof -
  from assms have a: "s \<noteq> []" "list_all isDigit s" "digitsValue s < 2 ^ 64"
    "w = word_of_int (digitsValue s)"
    by (auto simp add: ParseUint_def split: if_splits)
  have "uint w = digitsValue s mod 2 ^ 64"
    using a(4) by (simp add: uint_word_of_int)
  also have "\<dots> = digitsValue s"
    using a(3) digitsValue_nonneg [OF a(2)] by simp
  finally show ?thesis using a by simp
qed

lemma Atoi_digits:
  assumes "s \<noteq> []" and "list_all isDigit s"
  shows "Atoi s = (if digitsValue s < 2 ^ 63 then Some (digitsValue s) else None)"
proof -
  from assms obtain c cs where s: "s = c # cs" by (cases s) auto
  with assms(2) have "c \<noteq> CHR ''+''" "c \<noteq> CHR ''-''"
    using isDigit_not_sign [of c] by auto
  with assms s show ?thesis
    by (auto simp add: Atoi_def ParseInt_def Let_def)
qed

lemma Atoi_of_ParseUint:
  "ParseUint s = Some w \<Longrightarrow> Atoi s = (if uint w < 2 ^ 63 then Some (uint w) else None)"
  using ParseUint_Some [of s w] Atoi_digits [of s] by simp

text \<open>
  C10, as the code has it. With no prefix filter, the two scanners pass over the same
  lines silently and panic on the same lines. A line that the export tool accepts with a
  file type below \<open>2^63\<close> is accepted by the verification tool with the same filename,
  revision token and file type. A line that the verification tool accepts is either
  accepted by the export tool with the same three values, or passed over by it with a
  warning about a numeric field.
\<close>

theorem scanners_agree:
  "(scanLineCsv line = Inl Skip \<longleftrightarrow> scanLine [] line = Inl Skip) \<and>
   (scanLineCsv line = Inl Panic \<longleftrightarrow> scanLine [] line = Inl Panic) \<and>
   (scanLineCsv line = Inr row \<and> uint (FileType row) < 2 ^ 63 \<longrightarrow>
      scanLine [] line = Inr (LibrarianFile row, LibrarianRevision row, uint (FileType row))) \<and>
   (scanLine [] line = Inr (filename, revision, fileType) \<longrightarrow>
      (\<exists>w. scanLineCsv line = Inl (Warn w)) \<or>
      (\<exists>row'. scanLineCsv line = Inr row' \<and> LibrarianFile row' = filename \<and>
          LibrarianRevision row' = revision \<and> uint (FileType row') = fileType))"
  by (auto simp add: scanLine_unfold scanLineCsv_unfold Let_def Atoi_of_ParseUint
      split: option.splits if_splits)

theorem scanners_agree_witness:
  "scanLineCsv ''@pv@ 3 @db.storage@ @//depot/a@ @1.1@ 65539 1 ABC 100 100 XYZ 1610000000 ''
     = Inr \<lparr>LibrarianFile = ''//depot/a'', LibrarianRevision = ''@1.1@'',
            FileType = 65539, Decoded = decodeFileType 65539, ReferenceCount = 1,
            MD5OfLibrarianFile = ''ABC'', FileSize = 100, FileSizeOnServer = 100,
            DigestOfCompressedFile = ''XYZ'', LastUpdateDate = 1610000000\<rparr> \<and>
   uint (65539 :: 64 word) < 2 ^ 63 \<and>
   scanLine [] ''@pv@ 3 @db.storage@ @//depot/a@ @1.1@ 65539 1 ABC 100 100 XYZ 1610000000 ''
     = Inr (''//depot/a'', ''@1.1@'', 65539)"
proof -
  define row where "row = \<lparr>LibrarianFile = ''//depot/a'', LibrarianRevision = ''@1.1@'',
            FileType = (65539 :: 64 word), Decoded = decodeFileType 65539, ReferenceCount = 1,
            MD5OfLibrarianFile = ''ABC'', FileSize = 100, FileSizeOnServer = 100,
            DigestOfCompressedFile = ''XYZ'', LastUpdateDate = 1610000000\<rparr>"
  have h: "scanLineCsv
      ''@pv@ 3 @db.storage@ @//depot/a@ @1.1@ 65539 1 ABC 100 100 XYZ 1610000000 '' = Inr row"
    unfolding row_def
    by (simp add: scanLineCsv_unfold Let_def Trim_def
        Atoi_def ParseInt_def ParseUint_def isDigit_def digitsValue_def)
  have u: "uint (FileType row) < 2 ^ 63"
    by (simp add: row_def)
  have "scanLineCsv
      ''@pv@ 3 @db.storage@ @//depot/a@ @1.1@ 65539 1 ABC 100 100 XYZ 1610000000 '' = Inr row
        \<and> uint (FileType row) < 2 ^ 63 \<longrightarrow>
      scanLine [] ''@pv@ 3 @db.storage@ @//depot/a@ @1.1@ 65539 1 ABC 100 100 XYZ 1610000000 ''
        = Inr (LibrarianFile row, LibrarianRevision row, uint (FileType row))"
    using scanners_agree
      [of "''@pv@ 3 @db.storage@ @//depot/a@ @1.1@ 65539 1 ABC 100 100 XYZ 1610000000 ''" row]
    by (rule conjunct1 [OF conjunct2 [OF conjunct2]])
  with h u have "scanLine []
      ''@pv@ 3 @db.storage@ @//depot/a@ @1.1@ 65539 1 ABC 100 100 XYZ 1610000000 ''
        = Inr (LibrarianFile row, LibrarianRevision row, uint (FileType row))"
    by blast
  then show ?thesis
    using h by (simp add: row_def)
qed

text \<open>
  C10, as the claim has it, fails: the verification tool accepts a line whose reference
  count is not a number, and a line whose file type carries a sign; the export tool
  passes over both with a warning.
\<close>

theorem scanners_differ_counterexample:
  "scanLine [] ''@pv@ 3 @db.storage@ @//depot/a@ @1.1@ 0 x ABC 100 100 XYZ 1610000000 ''
     = Inr (''//depot/a'', ''@1.1@'', 0) \<and>
   scanLineCsv ''@pv@ 3 @db.storage@ @//depot/a@ @1.1@ 0 x ABC 100 100 XYZ 1610000000 ''
     = Inl (Warn ''x'') \<and>
   scanLine [] ''@pv@ 3 @db.storage@ @//depot/a@ @1.1@ -16 1 ABC 100 100 XYZ 1610000000 ''
     = Inr (''//depot/a'', ''@1.1@'', - 16) \<and>
   scanLineCsv ''@pv@ 3 @db.storage@ @//depot/a@ @1.1@ -16 1 ABC 100 100 XYZ 1610000000 ''
     = Inl (Warn ''-16'')"
  by (simp add: scanLine_unfold scanLineCsv_unfold Let_def Trim_def
      Atoi_def ParseInt_def ParseUint_def isDigit_def digitsValue_def)

section \<open>The revision scan of an RCS container\<close>

text \<open>
  The ring buffer against the list of lines: after any prefix of the file the ring is
  well formed, its last four lines are those of the prefix, and the index has gained
  one registration for each sentinel of the prefix, in order.
\<close>

lemma matchSentinel_0:
  "length buf = 4 \<Longrightarrow> matchSentinel buf 0 t =
     (let d = (\<lambda>t. if t - 1 < 0 then 3 else t - 1) in
      if buf ! nat t = ''text'' then
        if buf ! nat (d t) = ''@@'' then
          if buf ! nat (d (d t)) = ''log'' then (3, d (d (d t)))
          else (2, d (d t))
        else (1, d t)
      else (0, t))"
  by (simp add: sentinelBuffer_def Let_def)

lemma pos_cases:
  assumes "0 \<le> (p::int)" "p < 4"
  obtains "p = 0" | "p = 1" | "p = 2" | "p = 3"
  using assms by linarith

lemma length_four:
  assumes "length xs = 4"
  obtains a b c d where "xs = [a, b, c, d]"
proof -
  from assms obtain a xs1 where 1: "xs = a # xs1" "length xs1 = 3" by (cases xs) auto
  then obtain b xs2 where 2: "xs1 = b # xs2" "length xs2 = 2" by (cases xs1) auto
  then obtain c xs3 where 3: "xs2 = c # xs3" "length xs3 = 1" by (cases xs2) auto
  then obtain d where 4: "xs3 = [d]" by (cases xs3) auto
  from 1 2 3 4 that show ?thesis by simp
qed

lemma scanRCSLine_step:
  assumes "ringOk st"
  shows "ringOk (scanRCSLine ul np cs st l) \<and>
         lastFour (scanRCSLine ul np cs st l) = l # take 3 (lastFour st) \<and>
         scanned (scanRCSLine ul np cs st l) =
           (if l = ''text'' \<and> lastFour st ! 0 = ''@@'' \<and> lastFour st ! 1 = ''log''
            then registerExistingPath ul (scanned st) (np @ ''/'' @ lastFour st ! 2) cs
            else scanned st)"
proof -
  from assms have "length (circularBuffer st) = 4" by (simp add: ringOk_def)
  then obtain a b c d where buf: "circularBuffer st = [a, b, c, d]"
    by (rule length_four)
  from assms have p: "0 \<le> bufferPosition st" "bufferPosition st < 4"
    by (simp_all add: ringOk_def)
  from p show ?thesis
  proof (cases rule: pos_cases)
    case 1
    then show ?thesis
      by (simp add: scanRCSLine_def ringOk_def lastFour_def buf Let_def matchSentinel_0
          sentinelBuffer_def
          del: matchSentinel.simps)
  next
    case 2
    then show ?thesis
      by (simp add: scanRCSLine_def ringOk_def lastFour_def buf Let_def matchSentinel_0
          sentinelBuffer_def
          del: matchSentinel.simps)
  next
    case 3
    then show ?thesis
      by (simp add: scanRCSLine_def ringOk_def lastFour_def buf Let_def matchSentinel_0
          sentinelBuffer_def
          del: matchSentinel.simps)
  next
    case 4
    then show ?thesis
      by (simp add: scanRCSLine_def ringOk_def lastFour_def buf Let_def matchSentinel_0
          sentinelBuffer_def
          del: matchSentinel.simps)
  qed
qed

lemma lastLines_Nil: "lastLines [] = [[], [], [], []]"
  by (simp add: lastLines_def numeral_eq_Suc)

lemma lastLines_snoc: "lastLines (ps @ [l]) = l # take 3 (lastLines ps)"
  by (simp add: lastLines_def)

lemma lastLines_nth:
  "k < 4 \<Longrightarrow> lastLines ps ! k = (if k < length ps then ps ! (length ps - 1 - k) else [])"
  by (simp add: lastLines_def nth_append rev_nth)

lemma sentinelAt_snoc: "j < length ps \<Longrightarrow> sentinelAt (ps @ [l]) j = sentinelAt ps j"
  by (auto simp add: sentinelAt_def nth_append)

lemma revisionAt_snoc: "j < length ps \<Longrightarrow> revisionAt (ps @ [l]) j = revisionAt ps j"
  by (auto simp add: revisionAt_def nth_append)

lemma sentinelRevisions_snoc:
  "sentinelRevisions (ps @ [l]) =
     sentinelRevisions ps @
       (if sentinelAt (ps @ [l]) (length ps) then [revisionAt (ps @ [l]) (length ps)] else [])"
proof -
  have f: "filter (sentinelAt (ps @ [l])) [0..<length ps] = filter (sentinelAt ps) [0..<length ps]"
    by (rule filter_cong) (simp_all add: sentinelAt_snoc)
  have m: "map (revisionAt (ps @ [l])) (filter (sentinelAt ps) [0..<length ps])
             = map (revisionAt ps) (filter (sentinelAt ps) [0..<length ps])"
    by (rule map_cong) (simp_all add: revisionAt_snoc)
  show ?thesis
    by (simp add: sentinelRevisions_def f m)
qed

lemma sentinelAt_last:
  "sentinelAt (ps @ [l]) (length ps) \<longleftrightarrow>
     l = ''text'' \<and> lastLines ps ! 0 = ''@@'' \<and> lastLines ps ! 1 = ''log''"
  by (auto simp add: sentinelAt_def lastLines_nth nth_append numeral_2_eq_2)

lemma revisionAt_last:
  "revisionAt (ps @ [l]) (length ps) = lastLines ps ! 2"
  by (auto simp add: revisionAt_def lastLines_nth nth_append numeral_3_eq_3)

lemma scan_prefix:
  "ringOk (foldl (scanRCSLine ul np cs)
             \<lparr>circularBuffer = replicate 4 [], bufferPosition = 0, scanned = fm\<rparr> ps) \<and>
   lastFour (foldl (scanRCSLine ul np cs)
             \<lparr>circularBuffer = replicate 4 [], bufferPosition = 0, scanned = fm\<rparr> ps)
     = lastLines ps \<and>
   scanned (foldl (scanRCSLine ul np cs)
             \<lparr>circularBuffer = replicate 4 [], bufferPosition = 0, scanned = fm\<rparr> ps)
     = foldl (\<lambda>m r. registerExistingPath ul m (np @ ''/'' @ r) cs) fm (sentinelRevisions ps)"
proof (induction ps rule: rev_induct)
  case Nil
  have "replicate 4 [] = [[], [], [], []::string]"
    by (simp add: numeral_eq_Suc)
  then show ?case
    by (simp add: ringOk_def lastFour_def sentinelRevisions_def lastLines_Nil)
next
  case (snoc l ps)
  then show ?case
    using scanRCSLine_step [of "foldl (scanRCSLine ul np cs)
             \<lparr>circularBuffer = replicate 4 [], bufferPosition = 0, scanned = fm\<rparr> ps" ul np cs l]
    by (simp add: sentinelRevisions_snoc sentinelAt_last revisionAt_last lastLines_snoc)
qed

lemma readVersionsFromRCS_revisions:
  "readVersionsFromRCS ul (Some ls) np fm cs =
     (None, foldl (\<lambda>m r. registerExistingPath ul m (np @ ''/'' @ r) cs) fm (sentinelRevisions ls))"
  by (simp add: readVersionsFromRCS_def scan_prefix)

lemma no_sentinel_unchanged:
  assumes "filter (sentinelAt ls) [0..<length ls] = []"
  shows "readVersionsFromRCS ul (Some ls) np fm cs = (None, fm)"
  using assms by (simp add: readVersionsFromRCS_revisions sentinelRevisions_def)

lemma ToLower_ascii: "isASCII s \<Longrightarrow> ToLower ul s = map lowerByte s"
  by (simp add: ToLower_def)

text \<open>
  C5. A container \<open>base,v\<close> whose lines hold a revision line \<open>r\<close> followed by \<open>log\<close>,
  \<open>@@\<close>, \<open>text\<close>, with no sentinel ending at any other line, gains exactly one entry
  and no error: the index is the one before with the key of \<open>base,v/r\<close> set, the key
  being that path in case-sensitive mode and what \<open>strings.ToLower\<close> makes of it
  otherwise, and the lookup of \<open>base,v/r\<close> in the resulting index succeeds in either
  mode. A container at no line of which a sentinel ends (for instance with the \<open>@@\<close>
  line missing) leaves the index as it was.
\<close>

theorem rcs_single_revision:
  "(ls = pre @ [r, ''log'', ''@@'', ''text''] @ post \<and>
    filter (sentinelAt ls) [0..<length ls] = [length pre + 3] \<longrightarrow>
      readVersionsFromRCS ul (Some ls) (base @ '',v'') fm cs
        = (None, fm((if cs then base @ '',v/'' @ r else ToLower ul (base @ '',v/'' @ r))
                     \<mapsto> 1)) \<and>
      pathExistsOnDisk ul (snd (readVersionsFromRCS ul (Some ls) (base @ '',v'') fm cs))
        (base @ '',v/'' @ r) cs) \<and>
   (filter (sentinelAt ls) [0..<length ls] = [] \<longrightarrow>
      readVersionsFromRCS ul (Some ls) (base @ '',v'') fm cs = (None, fm))"
proof (intro conjI impI)
  assume a: "ls = pre @ [r, ''log'', ''@@'', ''text''] @ post \<and>
    filter (sentinelAt ls) [0..<length ls] = [length pre + 3]"
  from a have eq: "ls = pre @ [r, ''log'', ''@@'', ''text''] @ post"
    by (rule conjunct1)
  from a have f: "filter (sentinelAt ls) [0..<length ls] = [length pre + 3]"
    by (rule conjunct2)
  have r: "revisionAt ls (length pre + 3) = r"
    by (simp add: revisionAt_def eq)
  have "sentinelRevisions ls = map (revisionAt ls) [length pre + 3]"
    unfolding sentinelRevisions_def f ..
  with r have "sentinelRevisions ls = [r]"
    by simp
  then show res: "readVersionsFromRCS ul (Some ls) (base @ '',v'') fm cs
        = (None, fm((if cs then base @ '',v/'' @ r else ToLower ul (base @ '',v/'' @ r))
                     \<mapsto> 1))"
    by (simp add: readVersionsFromRCS_revisions registerExistingPath_def)
  show "pathExistsOnDisk ul (snd (readVersionsFromRCS ul (Some ls) (base @ '',v'') fm cs))
        (base @ '',v/'' @ r) cs"
    unfolding res by (simp add: pathExistsOnDisk_def)
next
  assume "filter (sentinelAt ls) [0..<length ls] = []"
  then show "readVersionsFromRCS ul (Some ls) (base @ '',v'') fm cs = (None, fm)"
    by (rule no_sentinel_unchanged)
qed

theorem rcs_single_revision_witness:
  "[''head 1.1;'', ''1.1'', ''log'', ''@@'', ''text'', ''@hello@'']
     = [''head 1.1;''] @ [''1.1'', ''log'', ''@@'', ''text''] @ [''@hello@''] \<and>
   filter (sentinelAt [''head 1.1;'', ''1.1'', ''log'', ''@@'', ''text'', ''@hello@''])
     [0..<length [''head 1.1;'', ''1.1'', ''log'', ''@@'', ''text'', ''@hello@'']]
     = [length [''head 1.1;''] + 3] \<and>
   readVersionsFromRCS (\<lambda>s. s)
     (Some [''head 1.1;'', ''1.1'', ''log'', ''@@'', ''text'', ''@hello@''])
     (''//Depot/A'' @ '',v'') Map.empty False = (None, [''//depot/a,v/1.1'' \<mapsto> 1]) \<and>
   readVersionsFromRCS (\<lambda>s. s)
     (Some [''head 1.1;'', ''1.1'', ''log'', ''@@'', ''text'', ''@hello@''])
     (''//Depot/A'' @ '',v'') Map.empty True = (None, [''//Depot/A,v/1.1'' \<mapsto> 1]) \<and>
   filter (sentinelAt [''head 1.1;'', ''1.1'', ''log'', ''text'', ''@hello@''])
     [0..<length [''head 1.1;'', ''1.1'', ''log'', ''text'', ''@hello@'']] = [] \<and>
   readVersionsFromRCS (\<lambda>s. s) (Some [''head 1.1;'', ''1.1'', ''log'', ''text'', ''@hello@''])
     (''//Depot/A'' @ '',v'') Map.empty False = (None, Map.empty)"
proof -
  have h1: "filter (sentinelAt [''head 1.1;'', ''1.1'', ''log'', ''@@'', ''text'', ''@hello@''])
     [0..<length [''head 1.1;'', ''1.1'', ''log'', ''@@'', ''text'', ''@hello@'']]
     = [length [''head 1.1;''] + 3]"
    by (simp add: sentinelAt_def upt_rec)
  have h2: "filter (sentinelAt [''head 1.1;'', ''1.1'', ''log'', ''text'', ''@hello@''])
     [0..<length [''head 1.1;'', ''1.1'', ''log'', ''text'', ''@hello@'']] = []"
    by (simp add: sentinelAt_def upt_rec)
  have low: "ToLower (\<lambda>s. s) ''//Depot/A,v/1.1'' = ''//depot/a,v/1.1''"
    by (simp add: ToLower_def isASCII_def lowerByte_def)
  show ?thesis
    using h1 h2 low
      rcs_single_revision
        [where ls = "[''head 1.1;'', ''1.1'', ''log'', ''@@'', ''text'', ''@hello@'']"
           and pre = "[''head 1.1;'']" and r = "''1.1''" and post = "[''@hello@'']"
           and base = "''//Depot/A''" and fm = Map.empty and cs = False
           and ul = "\<lambda>s. s"]
      rcs_single_revision
        [where ls = "[''head 1.1;'', ''1.1'', ''log'', ''@@'', ''text'', ''@hello@'']"
           and pre = "[''head 1.1;'']" and r = "''1.1''" and post = "[''@hello@'']"
           and base = "''//Depot/A''" and fm = Map.empty and cs = True
           and ul = "\<lambda>s. s"]
      rcs_single_revision
        [where ls = "[''head 1.1;'', ''1.1'', ''log'', ''text'', ''@hello@'']"
           and pre = "[]" and r = "[]" and post = "[]"
           and base = "''//Depot/A''" and fm = Map.empty and cs = False
           and ul = "\<lambda>s. s"]
    by simp
qed

text \<open>
  What holds of short containers: one of fewer than four lines, other than the three
  lines \<open>log\<close>, \<open>@@\<close>, \<open>text\<close>, and one at no line of which a sentinel ends, leave
  the index as it was, with no error.
\<close>

lemma three_lines:
  assumes "length ls = 3"
  shows "ls = [ls ! 0, ls ! 1, ls ! 2]"
proof -
  from assms obtain a xs1 where 1: "ls = a # xs1" "length xs1 = 2" by (cases ls) auto
  then obtain b xs2 where 2: "xs1 = b # xs2" "length xs2 = 1" by (cases xs1) auto
  then obtain c where 3: "xs2 = [c]" by (cases xs2) auto
  from 1 2 3 show ?thesis by simp
qed

lemma short_file_no_sentinel:
  assumes "length ls < 4" and "ls \<noteq> [''log'', ''@@'', ''text'']"
  shows "\<not> sentinelAt ls j"
proof
  assume s: "sentinelAt ls j"
  then have "2 \<le> j" "j < length ls" by (simp_all add: sentinelAt_def)
  with assms(1) have j: "j = 2" and l: "length ls = 3" by simp_all
  from s j have "ls ! 2 = ''text''" "ls ! 1 = ''@@''" "ls ! 0 = ''log''"
    by (simp_all add: sentinelAt_def)
  with three_lines [OF l] have "ls = [''log'', ''@@'', ''text'']" by simp
  with assms(2) show False by simp
qed

lemma rcs_no_revision:
  "(length ls < 4 \<and> ls \<noteq> [''log'', ''@@'', ''text''] \<longrightarrow>
      readVersionsFromRCS ul (Some ls) np fm cs = (None, fm)) \<and>
   ((\<forall>j < length ls. \<not> sentinelAt ls j) \<longrightarrow>
      readVersionsFromRCS ul (Some ls) np fm cs = (None, fm))"
proof (intro conjI impI)
  assume "length ls < 4 \<and> ls \<noteq> [''log'', ''@@'', ''text'']"
  then have "filter (sentinelAt ls) [0..<length ls] = []"
    by (simp add: short_file_no_sentinel)
  then show "readVersionsFromRCS ul (Some ls) np fm cs = (None, fm)"
    by (rule no_sentinel_unchanged)
next
  assume "\<forall>j < length ls. \<not> sentinelAt ls j"
  then have "filter (sentinelAt ls) [0..<length ls] = []"
    by (simp add: filter_empty_conv)
  then show "readVersionsFromRCS ul (Some ls) np fm cs = (None, fm)"
    by (rule no_sentinel_unchanged)
qed

text \<open>
  C6. A container of fewer than four lines does not always yield zero revisions. On
  the three lines \<open>log\<close>, \<open>@@\<close>, \<open>text\<close> the backward walk matches the sentinel and
  then reads the slot of the ring that was never written: the path with an empty
  revision, \<open>//depot/a,v/\<close>, is registered, in either mode, although the file holds
  no revision line.
\<close>

theorem three_line_container_registers:
  "length [''log'', ''@@'', ''text''] < 4 \<and>
   readVersionsFromRCS ul (Some [''log'', ''@@'', ''text'']) ''//depot/a,v'' Map.empty True
     = (None, [''//depot/a,v/'' \<mapsto> 1]) \<and>
   readVersionsFromRCS ul (Some [''log'', ''@@'', ''text'']) ''//depot/a,v'' Map.empty False
     = (None, [''//depot/a,v/'' \<mapsto> 1])"
  by (simp add: readVersionsFromRCS_revisions sentinelRevisions_def sentinelAt_def revisionAt_def
      registerExistingPath_def upt_rec ToLower_def isASCII_def lowerByte_def)

end
